theory Spec2Isabelle
  imports Main
begin

section \<open>The dropdown component of script.js\<close>

text \<open>
  The page is the list of the container elements that \<^verbatim>\<open>initDropdowns\<close> finds
  (\<^verbatim>\<open>document.querySelectorAll('[data-dropdown]')\<close>, in document order), each together
  with the \<^verbatim>\<open>Dropdown\<close> instance built on it. A container element is identified by its
  position in that list, an option element by its position in \<^verbatim>\<open>this.options\<close>.
  Containers are taken not to be nested in one another, to have their trigger, menu and
  value display, and every option to carry a \<^verbatim>\<open>data-value\<close>. Calls to \<^verbatim>\<open>console.log\<close>,
  \<^verbatim>\<open>preventDefault\<close>, \<^verbatim>\<open>scrollIntoView\<close> and \<^verbatim>\<open>trigger.focus\<close> are left out:
  they touch nothing that is modelled here.
\<close>

subsection \<open>Data\<close>

datatype error = TypeError

datatype outcome = Returned | Threw error

text \<open>
  What a variable holding an option element can hold: \<^verbatim>\<open>null\<close>, \<^verbatim>\<open>undefined\<close>, or the
  element \<^verbatim>\<open>this.options[k]\<close>.
\<close>

datatype elem_ref = Null | Undefined | OptionEl nat

text \<open>A \<^verbatim>\<open>.dropdown-option\<close> element.\<close>

record option_el =
  data_value :: string
  innerHTML :: string
  class_is_selected :: bool
  class_is_focused :: bool
  aria_selected :: "string option"

text \<open>The \<^verbatim>\<open>detail\<close> of a \<^verbatim>\<open>dropdown:select\<close> event.\<close>

record select_event =
  ev_value :: "string option"
  ev_option :: elem_ref
  ev_dropdown :: nat

text \<open>
  A container element with its trigger, its value display and its options, the fields of
  the instance built on it, the listeners \<^verbatim>\<open>init\<close> registers for it, and the
  \<^verbatim>\<open>dropdown:select\<close> events dispatched on it so far.
\<close>

record dropdown =
  class_dropdown :: bool
  class_is_open :: bool
  aria_expanded :: "string option"
  value_innerHTML :: string
  class_is_placeholder :: bool
  options :: "option_el list"
  isOpen :: bool
  selectedValue :: "string option"
  selectedOption :: elem_ref
  focusedIndex :: int
  placeholder :: string
  trigger_click_listener :: bool
  option_click_listeners :: bool
  keydown_listener :: bool
  document_click_listener :: bool
  dispatched :: "select_event list"

type_synonym page = "dropdown list"

text \<open>The markup of one container, as the constructor reads it.\<close>

record markup =
  m_class_dropdown :: bool
  m_class_is_open :: bool
  m_aria_expanded :: "string option"
  m_value_innerHTML :: string
  m_value_textContent :: string
  m_options :: "(string \<times> string) list"

text \<open>
  \<^verbatim>\<open>e.key\<close>: \<open>Space\<close> is the string \<^verbatim>\<open>' '\<close>, and \<open>OtherKey\<close> any key that
  \<^verbatim>\<open>handleKeyboard\<close> has no \<^verbatim>\<open>case\<close> for.
\<close>

datatype key = Enter | Space | Escape | ArrowDown | ArrowUp | Home | End | OtherKey

text \<open>Where a click lands: inside the container at a position of the page, or outside all.\<close>

datatype click_target = InDropdown nat | Elsewhere

subsection \<open>Constructor and \<^verbatim>\<open>initDropdowns\<close>\<close>

definition new_option :: "string \<times> string \<Rightarrow> option_el" where
  "new_option vh =
     \<lparr>data_value = fst vh, innerHTML = snd vh, class_is_selected = False,
      class_is_focused = False, aria_selected = None\<rparr>"

definition new_Dropdown :: "markup \<Rightarrow> dropdown" where
  "new_Dropdown m =
     \<lparr>class_dropdown = m_class_dropdown m,
      class_is_open = m_class_is_open m,
      aria_expanded = m_aria_expanded m,
      value_innerHTML = m_value_innerHTML m,
      class_is_placeholder = True,
      options = map new_option (m_options m),
      isOpen = False,
      selectedValue = None,
      selectedOption = Null,
      focusedIndex = - 1,
      placeholder = m_value_textContent m,
      trigger_click_listener = True,
      option_click_listeners = True,
      keydown_listener = True,
      document_click_listener = True,
      dispatched = []\<rparr>"

definition initDropdowns :: "markup list \<Rightarrow> page" where
  "initDropdowns ms = map new_Dropdown ms"

subsection \<open>The methods of the class\<close>

text \<open>\<^verbatim>\<open>this.options[i]\<close>: \<^verbatim>\<open>undefined\<close> outside the array.\<close>

definition options_at :: "dropdown \<Rightarrow> int \<Rightarrow> elem_ref" where
  "options_at d i =
     (if 0 \<le> i \<and> i < int (length (options d)) then OptionEl (nat i) else Undefined)"

text \<open>\<^verbatim>\<open>this.options.indexOf(r)\<close>.\<close>

definition indexOf :: "dropdown \<Rightarrow> elem_ref \<Rightarrow> int" where
  "indexOf d r =
     (case r of
        OptionEl k \<Rightarrow> (if k < length (options d) then int k else - 1)
      | _ \<Rightarrow> - 1)"

text \<open>
  The spec's \<open>selectedIndex\<close> is not a field of the class: it is the position of
  \<^verbatim>\<open>this.selectedOption\<close> in \<^verbatim>\<open>this.options\<close>, and \<open>- 1\<close> stands for "none", as it
  does for \<^verbatim>\<open>focusedIndex\<close>.
\<close>

definition selectedIndex :: "dropdown \<Rightarrow> int" where
  "selectedIndex d = indexOf d (selectedOption d)"

definition unfocus :: "option_el \<Rightarrow> option_el" where
  "unfocus opt = opt\<lparr>class_is_focused := False\<rparr>"

definition close :: "dropdown \<Rightarrow> dropdown" where
  "close d =
     (if \<not> isOpen d then d
      else d\<lparr>isOpen := False,
             class_is_open := False,
             aria_expanded := Some ''false'',
             options := map unfocus (options d),
             focusedIndex := - 1\<rparr>)"

text \<open>
  \<^verbatim>\<open>open\<close>, first part: the loop over \<^verbatim>\<open>document.querySelectorAll('.dropdown.is-open')\<close>.
  The node list is computed once, before any instance is closed. Every container of the
  page has its \<^verbatim>\<open>_dropdownInstance\<close>; an element with these classes that is not a
  container of the page has none and is skipped.
\<close>

definition open_broadcast :: "nat \<Rightarrow> page \<Rightarrow> page" where
  "open_broadcast i p =
     map (\<lambda>j. if class_dropdown (p ! j) \<and> class_is_open (p ! j) \<and> j \<noteq> i
              then close (p ! j) else p ! j)
       [0..<length p]"

text \<open>\<^verbatim>\<open>open\<close>, second part: the instance's own fields, class and attribute.\<close>

definition open_self :: "dropdown \<Rightarrow> dropdown" where
  "open_self d =
     d\<lparr>isOpen := True,
       class_is_open := True,
       aria_expanded := Some ''true'',
       focusedIndex :=
         (if selectedOption d = Null \<or> selectedOption d = Undefined then - 1
          else indexOf d (selectedOption d))\<rparr>"

text \<open>
  \<^verbatim>\<open>open\<close> of the instance on container \<open>i\<close> (\<open>open\<close> is a keyword of Isabelle, hence
  the name).
\<close>

definition open_dd :: "nat \<Rightarrow> page \<Rightarrow> page" where
  "open_dd i p =
     (if isOpen (p ! i) then p
      else (open_broadcast i p)[i := open_self (open_broadcast i p ! i)])"

definition mark_unselected :: "option_el \<Rightarrow> option_el" where
  "mark_unselected opt = opt\<lparr>class_is_selected := False, aria_selected := Some ''false''\<rparr>"

definition mark_selected :: "option_el \<Rightarrow> option_el" where
  "mark_selected opt = opt\<lparr>class_is_selected := True, aria_selected := Some ''true''\<rparr>"

text \<open>\<^verbatim>\<open>selectOption\<close>, the block "Remove previous selection".\<close>

definition remove_previous :: "dropdown \<Rightarrow> dropdown" where
  "remove_previous d =
     (case selectedOption d of
        OptionEl k \<Rightarrow> d\<lparr>options := (options d)[k := mark_unselected (options d ! k)]\<rparr>
      | _ \<Rightarrow> d)"

text \<open>
  \<^verbatim>\<open>selectOption\<close> up to and including \<^verbatim>\<open>this.close()\<close>. Reading
  \<^verbatim>\<open>option.dataset\<close> throws a TypeError when \<^verbatim>\<open>option\<close> is \<^verbatim>\<open>undefined\<close> or
  \<^verbatim>\<open>null\<close>; the assignments made before stay.
\<close>

definition selectOption_update :: "elem_ref \<Rightarrow> dropdown \<Rightarrow> outcome \<times> dropdown" where
  "selectOption_update opt d =
     (let d1 = remove_previous d;
          d2 = d1\<lparr>selectedOption := opt\<rparr>
      in case opt of
           OptionEl k \<Rightarrow>
             (let d3 = d2\<lparr>selectedValue := Some (data_value (options d2 ! k))\<rparr>;
                  d4 = d3\<lparr>options := (options d3)[k := mark_selected (options d3 ! k)]\<rparr>;
                  d5 = d4\<lparr>value_innerHTML := innerHTML (options d4 ! k),
                          class_is_placeholder := False\<rparr>
              in (Returned, close d5))
         | _ \<Rightarrow> (Threw TypeError, d2))"

definition dispatchEvent :: "select_event \<Rightarrow> dropdown \<Rightarrow> dropdown" where
  "dispatchEvent ev d = d\<lparr>dispatched := dispatched d @ [ev]\<rparr>"

text \<open>
  \<^verbatim>\<open>selectOption(option, index)\<close> of the instance on container \<open>this\<close>. The body never
  reads \<^verbatim>\<open>index\<close>.
\<close>

definition selectOption :: "nat \<Rightarrow> elem_ref \<Rightarrow> int \<Rightarrow> dropdown \<Rightarrow> outcome \<times> dropdown" where
  "selectOption this opt index d =
     (case selectOption_update opt d of
        (Returned, d') \<Rightarrow>
          (Returned,
           dispatchEvent \<lparr>ev_value = selectedValue d', ev_option = opt, ev_dropdown = this\<rparr> d')
      | (Threw e, d') \<Rightarrow> (Threw e, d'))"

definition updateFocusedOption :: "dropdown \<Rightarrow> dropdown" where
  "updateFocusedOption d =
     (let os = map unfocus (options d)
      in d\<lparr>options :=
             (if 0 \<le> focusedIndex d \<and> focusedIndex d < int (length os)
              then os[nat (focusedIndex d) := (os ! nat (focusedIndex d))\<lparr>class_is_focused := True\<rparr>]
              else os)\<rparr>)"

definition focusNextOption :: "dropdown \<Rightarrow> dropdown" where
  "focusNextOption d =
     updateFocusedOption
       (d\<lparr>focusedIndex := min (focusedIndex d + 1) (int (length (options d)) - 1)\<rparr>)"

definition focusPreviousOption :: "dropdown \<Rightarrow> dropdown" where
  "focusPreviousOption d =
     updateFocusedOption (d\<lparr>focusedIndex := max (focusedIndex d - 1) 0\<rparr>)"

definition focusFirstOption :: "dropdown \<Rightarrow> dropdown" where
  "focusFirstOption d = updateFocusedOption (d\<lparr>focusedIndex := 0\<rparr>)"

definition focusLastOption :: "dropdown \<Rightarrow> dropdown" where
  "focusLastOption d =
     updateFocusedOption (d\<lparr>focusedIndex := int (length (options d)) - 1\<rparr>)"

text \<open>\<^verbatim>\<open>toggle\<close>; its \<^verbatim>\<open>e.stopPropagation()\<close> is part of \<open>step\<close> below.\<close>

definition toggle :: "nat \<Rightarrow> page \<Rightarrow> page" where
  "toggle i p = (if isOpen (p ! i) then p[i := close (p ! i)] else open_dd i p)"

text \<open>\<^verbatim>\<open>this.dropdown.contains(e.target)\<close> for the container at position \<open>j\<close>.\<close>

definition contains_target :: "nat \<Rightarrow> click_target \<Rightarrow> bool" where
  "contains_target j t = (t = InDropdown j)"

definition handleClickOutside :: "nat \<Rightarrow> click_target \<Rightarrow> dropdown \<Rightarrow> dropdown" where
  "handleClickOutside j t d =
     (if \<not> isOpen d then d
      else if \<not> contains_target j t then close d else d)"

text \<open>The branch shared by \<^verbatim>\<open>case 'Enter'\<close> and \<^verbatim>\<open>case ' '\<close>.\<close>

definition enter_or_space :: "nat \<Rightarrow> page \<Rightarrow> outcome \<times> page" where
  "enter_or_space i p =
     (if \<not> isOpen (p ! i) then (Returned, open_dd i p)
      else if focusedIndex (p ! i) \<ge> 0 then
        (case selectOption i (options_at (p ! i) (focusedIndex (p ! i))) (focusedIndex (p ! i)) (p ! i) of
           (r, d') \<Rightarrow> (r, p[i := d']))
      else (Returned, p))"

definition handleKeyboard :: "nat \<Rightarrow> key \<Rightarrow> page \<Rightarrow> outcome \<times> page" where
  "handleKeyboard i k p =
     (if \<not> isOpen (p ! i) \<and> k \<noteq> Enter \<and> k \<noteq> Space then (Returned, p)
      else case k of
        Enter \<Rightarrow> enter_or_space i p
      | Space \<Rightarrow> enter_or_space i p
      | Escape \<Rightarrow> (Returned, p[i := close (p ! i)])
      | ArrowDown \<Rightarrow>
          (if \<not> isOpen (p ! i) then (Returned, open_dd i p)
           else (Returned, p[i := focusNextOption (p ! i)]))
      | ArrowUp \<Rightarrow>
          (if \<not> isOpen (p ! i) then (Returned, open_dd i p)
           else (Returned, p[i := focusPreviousOption (p ! i)]))
      | Home \<Rightarrow>
          (if isOpen (p ! i) then (Returned, p[i := focusFirstOption (p ! i)])
           else (Returned, p))
      | End \<Rightarrow>
          (if isOpen (p ! i) then (Returned, p[i := focusLastOption (p ! i)])
           else (Returned, p))
      | OtherKey \<Rightarrow> (Returned, p))"

text \<open>
  \<^verbatim>\<open>destroy\<close>. The three \<^verbatim>\<open>removeEventListener\<close> calls name the functions that
  \<^verbatim>\<open>init\<close> registered, so they remove them; the listeners on the options are arrow
  functions that \<^verbatim>\<open>destroy\<close> does not name.
\<close>

definition destroy :: "dropdown \<Rightarrow> dropdown" where
  "destroy d =
     d\<lparr>trigger_click_listener := False,
       keydown_listener := False,
       document_click_listener := False,
       isOpen := False,
       class_is_open := False\<rparr>"

subsection \<open>Events and calls\<close>

text \<open>
  A click that reaches \<^verbatim>\<open>document\<close> runs the \<^verbatim>\<open>handleClickOutside\<close> of every instance
  whose listener is still registered.
\<close>

definition document_click :: "click_target \<Rightarrow> page \<Rightarrow> page" where
  "document_click t p =
     map (\<lambda>j. if document_click_listener (p ! j) then handleClickOutside j t (p ! j) else p ! j)
       [0..<length p]"

text \<open>
  What can happen to the page: a click on the trigger of container \<open>i\<close>, on its option
  \<open>k\<close>, or anywhere else; a key pressed inside container \<open>i\<close>; a call of one of the
  methods \<^verbatim>\<open>open\<close>, \<^verbatim>\<open>close\<close>, \<^verbatim>\<open>selectOption(options[n], n)\<close>, \<^verbatim>\<open>destroy\<close>
  of instance \<open>i\<close>.
\<close>

datatype action =
    ClickTrigger nat
  | ClickOption nat nat
  | ClickOther click_target
  | KeyDown nat key
  | Call_open nat
  | Call_close nat
  | Call_selectOption nat int
  | Call_destroy nat

text \<open>
  The browser's dispatch. The listeners of the trigger and of the options stop the
  propagation of the click; a click on a trigger without listener goes on to
  \<^verbatim>\<open>document\<close>. An exception thrown by a listener ends that listener and leaves the
  page as it is by then. An action on a container or option that does not exist is
  nothing.
\<close>

fun step :: "action \<Rightarrow> page \<Rightarrow> page" where
  "step (ClickTrigger i) p =
     (if i < length p then
        (if trigger_click_listener (p ! i) then toggle i p else document_click (InDropdown i) p)
      else p)"
| "step (ClickOption i k) p =
     (if i < length p \<and> k < length (options (p ! i)) \<and> option_click_listeners (p ! i)
      then p[i := snd (selectOption i (OptionEl k) (int k) (p ! i))]
      else p)"
| "step (ClickOther t) p = document_click t p"
| "step (KeyDown i k) p =
     (if i < length p \<and> keydown_listener (p ! i) then snd (handleKeyboard i k p) else p)"
| "step (Call_open i) p = (if i < length p then open_dd i p else p)"
| "step (Call_close i) p = (if i < length p then p[i := close (p ! i)] else p)"
| "step (Call_selectOption i n) p =
     (if i < length p then p[i := snd (selectOption i (options_at (p ! i) n) n (p ! i))] else p)"
| "step (Call_destroy i) p = (if i < length p then p[i := destroy (p ! i)] else p)"

text \<open>A sequence of actions, from left to right.\<close>

definition run :: "action list \<Rightarrow> page \<Rightarrow> page" where
  "run acts p = foldl (\<lambda>q a. step a q) p acts"

subsection \<open>Notions for the statements and the proofs\<close>

text \<open>
  The references that the callers of \<^verbatim>\<open>selectOption\<close> pass: \<^verbatim>\<open>undefined\<close>, or an
  element of \<^verbatim>\<open>this.options\<close>.
\<close>

definition valid_ref :: "dropdown \<Rightarrow> elem_ref \<Rightarrow> bool" where
  "valid_ref d r = (case r of OptionEl k \<Rightarrow> k < length (options d) | _ \<Rightarrow> True)"

text \<open>
  What one action can do to the instance on container \<open>j\<close>: nothing, or one of the
  methods. It is the case analysis behind the invariants below.
\<close>

inductive local_step :: "nat \<Rightarrow> dropdown \<Rightarrow> dropdown \<Rightarrow> bool" where
  ls_same: "local_step j d d"
| ls_close: "local_step j d (close d)"
| ls_open: "\<not> isOpen d \<Longrightarrow> local_step j d (open_self d)"
| ls_select: "valid_ref d r \<Longrightarrow> local_step j d (snd (selectOption j r n d))"
| ls_next: "isOpen d \<Longrightarrow> local_step j d (focusNextOption d)"
| ls_previous: "isOpen d \<Longrightarrow> local_step j d (focusPreviousOption d)"
| ls_first: "isOpen d \<Longrightarrow> local_step j d (focusFirstOption d)"
| ls_last: "isOpen d \<Longrightarrow> local_step j d (focusLastOption d)"
| ls_destroy: "local_step j d (destroy d)"

text \<open>
  An instance that still has the listeners that \<^verbatim>\<open>destroy\<close> removes, that is, one on
  which \<^verbatim>\<open>destroy\<close> has not been called.
\<close>

definition live :: "dropdown \<Rightarrow> bool" where
  "live d = (trigger_click_listener d \<and> keydown_listener d \<and> document_click_listener d)"

text \<open>The number of instances with \<^verbatim>\<open>isOpen = true\<close>.\<close>

definition open_count :: "page \<Rightarrow> nat" where
  "open_count p = length (filter isOpen p)"

text \<open>
  Every container carries the class \<^verbatim>\<open>dropdown\<close>, and an open instance's container
  carries \<^verbatim>\<open>is-open\<close>: then \<^verbatim>\<open>.dropdown.is-open\<close> selects every open instance.
\<close>

definition classes_ok :: "page \<Rightarrow> bool" where
  "classes_ok p = list_all (\<lambda>d. class_dropdown d \<and> (class_is_open d \<or> \<not> isOpen d)) p"

text \<open>
  Example inputs: a container with the structure the README shows, the same without the
  class \<^verbatim>\<open>dropdown\<close>, and the same without options.
\<close>

definition example_markup :: markup where
  "example_markup =
     \<lparr>m_class_dropdown = True, m_class_is_open = False, m_aria_expanded = Some ''false'',
      m_value_innerHTML = ''Select an option'', m_value_textContent = ''Select an option'',
      m_options = [(''option1'', ''Option 1''), (''option2'', ''Option 2''), (''option3'', ''Option 3'')]\<rparr>"

definition unclassed_markup :: markup where
  "unclassed_markup = example_markup\<lparr>m_class_dropdown := False\<rparr>"

definition empty_markup :: markup where
  "empty_markup = example_markup\<lparr>m_options := []\<rparr>"

text \<open>The README's container after its first option has been selected.\<close>

definition selected_example :: dropdown where
  "selected_example = snd (selectOption 0 (OptionEl 0) 0 (new_Dropdown example_markup))"

text \<open>
  The accessibility attributes as the spec wants them: \<^verbatim>\<open>aria-expanded\<close> says whether
  the instance is open, and \<^verbatim>\<open>aria-selected\<close> is \<^verbatim>\<open>true\<close> on the selected option
  and on no other.
\<close>

definition expanded_in_sync :: "dropdown \<Rightarrow> bool" where
  "expanded_in_sync d = (aria_expanded d = Some (if isOpen d then ''true'' else ''false''))"

definition selected_in_sync :: "dropdown \<Rightarrow> bool" where
  "selected_in_sync d =
     list_all (\<lambda>k. (aria_selected (options d ! k) = Some ''true'') = (selectedOption d = OptionEl k))
       [0..<length (options d)]"

text \<open>Pressing the keys \<open>ks\<close> one after the other inside container \<open>i\<close>.\<close>

definition press_keys :: "nat \<Rightarrow> key list \<Rightarrow> page \<Rightarrow> page" where
  "press_keys i ks p = foldl (\<lambda>q k. snd (handleKeyboard i k q)) p ks"

definition is_focus_key :: "key \<Rightarrow> bool" where
  "is_focus_key k = (k = ArrowDown \<or> k = ArrowUp \<or> k = Home \<or> k = End)"

text \<open>
  Whether an action runs \<^verbatim>\<open>selectOption\<close> on instance \<open>j\<close>: a call of the method, a click
  on one of its options, or Enter or Space while it is open with a focused option.
\<close>

fun selects :: "action \<Rightarrow> nat \<Rightarrow> page \<Rightarrow> bool" where
  "selects (Call_selectOption i n) j p = (i = j)"
| "selects (ClickOption i k) j p = (i = j)"
| "selects (KeyDown i k) j p =
     (i = j \<and> (k = Enter \<or> k = Space) \<and> isOpen (p ! i) \<and> 0 \<le> focusedIndex (p ! i))"
| "selects a j p = False"

subsection \<open>The page after one action\<close>

lemma length_open_broadcast [simp]: "length (open_broadcast i p) = length p"
  by (simp add: open_broadcast_def)

lemma nth_open_broadcast:
  "j < length p \<Longrightarrow> open_broadcast i p ! j =
     (if class_dropdown (p ! j) \<and> class_is_open (p ! j) \<and> j \<noteq> i then close (p ! j) else p ! j)"
  by (simp add: open_broadcast_def)

lemma length_open_dd [simp]: "length (open_dd i p) = length p"
  by (simp add: open_dd_def)

lemma nth_open_dd:
  "j < length p \<Longrightarrow> open_dd i p ! j =
     (if isOpen (p ! i) then p ! j
      else if j = i then open_self (p ! i)
      else if class_dropdown (p ! j) \<and> class_is_open (p ! j) then close (p ! j) else p ! j)"
  by (simp add: open_dd_def nth_open_broadcast nth_list_update)

lemma length_document_click [simp]: "length (document_click t p) = length p"
  by (simp add: document_click_def)

lemma nth_document_click:
  "j < length p \<Longrightarrow> document_click t p ! j =
     (if document_click_listener (p ! j) then handleClickOutside j t (p ! j) else p ! j)"
  by (simp add: document_click_def)

lemma length_toggle [simp]: "length (toggle i p) = length p"
  by (simp add: toggle_def)

lemma length_enter_or_space [simp]: "length (snd (enter_or_space i p)) = length p"
  by (simp add: enter_or_space_def split: prod.splits)

lemma length_handleKeyboard [simp]: "length (snd (handleKeyboard i k p)) = length p"
  by (cases k) (simp_all add: handleKeyboard_def)

lemma length_step [simp]: "length (step a p) = length p"
  by (cases a) simp_all

lemma length_run [simp]: "length (run acts p) = length p"
  unfolding run_def by (induction acts arbitrary: p) simp_all

lemma valid_ref_options_at: "valid_ref d (options_at d n)"
  by (auto simp: valid_ref_def options_at_def)

lemma local_step_open_dd: "j < length p \<Longrightarrow> local_step j (p ! j) (open_dd i p ! j)"
  by (simp add: nth_open_dd local_step.intros)

lemma local_step_document_click: "j < length p \<Longrightarrow> local_step j (p ! j) (document_click t p ! j)"
  by (simp add: nth_document_click handleClickOutside_def local_step.intros)

lemma local_step_update:
  "local_step i (p ! i) d' \<Longrightarrow> j < length p \<Longrightarrow> local_step j (p ! j) (p[i := d'] ! j)"
  by (cases "j = i") (simp_all add: local_step.intros)

lemma local_step_toggle: "j < length p \<Longrightarrow> local_step j (p ! j) (toggle i p ! j)"
  by (simp add: toggle_def local_step_open_dd local_step_update local_step.intros)

lemma local_step_enter_or_space:
  "j < length p \<Longrightarrow> local_step j (p ! j) (snd (enter_or_space i p) ! j)"
proof -
  assume j: "j < length p"
  have sel: "local_step i (p ! i)
      (snd (selectOption i (options_at (p ! i) (focusedIndex (p ! i))) (focusedIndex (p ! i)) (p ! i)))"
    by (rule ls_select) (rule valid_ref_options_at)
  show ?thesis
    using j local_step_update [OF sel j]
    by (auto simp: enter_or_space_def local_step_open_dd local_step.intros split: prod.splits)
qed

lemma local_step_handleKeyboard:
  "j < length p \<Longrightarrow> local_step j (p ! j) (snd (handleKeyboard i k p) ! j)"
  by (cases k)
    (simp_all add: handleKeyboard_def local_step_enter_or_space local_step_open_dd
      local_step_update local_step.intros)

lemma local_step_step: "j < length p \<Longrightarrow> local_step j (p ! j) (step a p ! j)"
proof (cases a)
  case (ClickOption i k)
  assume j: "j < length p"
  show ?thesis
  proof (cases "i < length p \<and> k < length (options (p ! i)) \<and> option_click_listeners (p ! i)")
    case True
    then have "local_step i (p ! i) (snd (selectOption i (OptionEl k) (int k) (p ! i)))"
      by (intro ls_select) (simp add: valid_ref_def)
    from local_step_update [OF this j] True ClickOption show ?thesis by simp
  next
    case False
    with ClickOption show ?thesis by (auto simp: ls_same)
  qed
next
  case (Call_selectOption i n)
  assume j: "j < length p"
  have "local_step i (p ! i) (snd (selectOption i (options_at (p ! i) n) n (p ! i)))"
    by (rule ls_select) (rule valid_ref_options_at)
  from local_step_update [OF this j] Call_selectOption show ?thesis
    by (simp add: ls_same)
qed (simp_all add: local_step_toggle local_step_document_click local_step_handleKeyboard
      local_step_open_dd local_step_update local_step.intros)

subsection \<open>What the methods keep\<close>

lemmas method_defs =
  close_def open_self_def selectOption_def selectOption_update_def remove_previous_def
  dispatchEvent_def updateFocusedOption_def focusNextOption_def focusPreviousOption_def
  focusFirstOption_def focusLastOption_def destroy_def indexOf_def valid_ref_def Let_def

lemma local_step_class_dropdown: "local_step j d d' \<Longrightarrow> class_dropdown d' = class_dropdown d"
  by (induction rule: local_step.induct) (auto simp: method_defs split: elem_ref.splits if_splits)

lemma local_step_length_options:
  "local_step j d d' \<Longrightarrow> length (options d') = length (options d)"
  by (induction rule: local_step.induct) (auto simp: method_defs split: elem_ref.splits if_splits)

lemma local_step_class_is_open:
  "local_step j d d' \<Longrightarrow> isOpen d' \<Longrightarrow> class_is_open d \<or> \<not> isOpen d \<Longrightarrow> class_is_open d'"
  by (induction rule: local_step.induct) (auto simp: method_defs split: elem_ref.splits if_splits)

lemma local_step_live: "local_step j d d' \<Longrightarrow> live d' \<Longrightarrow> live d"
  by (induction rule: local_step.induct) (auto simp: live_def method_defs split: elem_ref.splits if_splits)

lemma local_step_closed_unfocused:
  "local_step j d d' \<Longrightarrow> isOpen d \<or> focusedIndex d = - 1 \<or> \<not> live d \<Longrightarrow>
     isOpen d' \<or> focusedIndex d' = - 1 \<or> \<not> live d'"
  by (induction rule: local_step.induct) (auto simp: live_def method_defs split: elem_ref.splits if_splits)

lemma local_step_focus_range:
  "local_step j d d' \<Longrightarrow> options d \<noteq> [] \<Longrightarrow>
     - 1 \<le> focusedIndex d \<and> focusedIndex d < int (length (options d)) \<Longrightarrow>
     - 1 \<le> focusedIndex d' \<and> focusedIndex d' < int (length (options d'))"
  by (induction rule: local_step.induct) (auto simp: method_defs split: elem_ref.splits if_splits)

lemma local_step_isOpen:
  "local_step j d d' \<Longrightarrow> isOpen d' \<Longrightarrow> isOpen d \<or> d' = open_self d"
  by (induction rule: local_step.induct) (auto simp: method_defs split: elem_ref.splits if_splits)

subsection \<open>Mutual exclusion\<close>

lemma classes_ok_nth:
  "classes_ok p \<Longrightarrow> j < length p \<Longrightarrow> class_dropdown (p ! j) \<and> (class_is_open (p ! j) \<or> \<not> isOpen (p ! j))"
  by (simp add: classes_ok_def list_all_length)

lemma open_count_0_iff: "open_count p = 0 \<longleftrightarrow> (\<forall>j<length p. \<not> isOpen (p ! j))"
  by (simp add: open_count_def filter_empty_conv all_set_conv_all_nth)

lemma open_count_update_closed:
  assumes "\<forall>j<length q. \<not> isOpen (q ! j)" and "i < length q"
  shows "open_count (q[i := d]) = (if isOpen d then 1 else 0)"
proof -
  have all: "\<forall>x\<in>set q. \<not> isOpen x"
    using assms(1) by (simp add: all_set_conv_all_nth)
  have "\<forall>x\<in>set (take i q). \<not> isOpen x" "\<forall>x\<in>set (drop (Suc i) q). \<not> isOpen x"
    using all by (auto dest: in_set_takeD in_set_dropD)
  then have "filter isOpen (take i q) = []" "filter isOpen (drop (Suc i) q) = []"
    by (simp_all add: filter_empty_conv)
  then show ?thesis
    using assms(2) by (simp add: open_count_def upd_conv_take_nth_drop)
qed

lemma open_count_shrink:
  assumes "length q = length p" and "\<forall>j<length p. isOpen (q ! j) \<longrightarrow> isOpen (p ! j)"
  shows "open_count q \<le> open_count p"
proof -
  have "list_all2 (\<lambda>d d'. isOpen d' \<longrightarrow> isOpen d) p q"
    using assms by (simp add: list_all2_conv_all_nth)
  then show ?thesis
    unfolding open_count_def by (induction rule: list_all2_induct) auto
qed

lemma open_broadcast_all_closed:
  assumes "classes_ok p" and "i < length p" and "\<not> isOpen (p ! i)"
  shows "\<forall>j<length p. \<not> isOpen (open_broadcast i p ! j)"
proof (intro allI impI)
  fix j assume j: "j < length p"
  show "\<not> isOpen (open_broadcast i p ! j)"
    using classes_ok_nth [OF assms(1) j] assms(3) j
    by (auto simp: nth_open_broadcast close_def)
qed

lemma open_count_open_dd:
  assumes "classes_ok p" and "i < length p" and "\<not> isOpen (p ! i)"
  shows "open_count (open_dd i p) = 1"
proof -
  have "\<forall>j<length (open_broadcast i p). \<not> isOpen (open_broadcast i p ! j)"
    using open_broadcast_all_closed [OF assms] by simp
  from open_count_update_closed [OF this, of i "open_self (open_broadcast i p ! i)"] assms(2,3)
  show ?thesis by (simp add: open_dd_def open_self_def)
qed

lemma isOpen_selectOption: "isOpen (snd (selectOption this r n d)) \<Longrightarrow> isOpen d"
  by (auto simp: method_defs split: elem_ref.splits if_splits)

lemma step_opens_or_shrinks:
  "(\<exists>i<length p. step a p = open_dd i p) \<or> (\<forall>j<length p. isOpen (step a p ! j) \<longrightarrow> isOpen (p ! j))"
proof (cases a)
  case (ClickTrigger i)
  then show ?thesis
    by (auto simp: toggle_def nth_document_click handleClickOutside_def close_def nth_list_update)
next
  case (ClickOption i k)
  then show ?thesis by (auto simp: nth_list_update dest: isOpen_selectOption)
next
  case (ClickOther t)
  then show ?thesis by (auto simp: nth_document_click handleClickOutside_def close_def)
next
  case (KeyDown i k)
  then show ?thesis
    by (cases k)
      (auto simp: handleKeyboard_def enter_or_space_def nth_list_update close_def
        updateFocusedOption_def focusNextOption_def focusPreviousOption_def
        focusFirstOption_def focusLastOption_def Let_def
        split: prod.splits dest: isOpen_selectOption)
next
  case (Call_open i)
  then show ?thesis by auto
next
  case (Call_close i)
  then show ?thesis by (auto simp: nth_list_update close_def)
next
  case (Call_selectOption i n)
  then show ?thesis by (auto simp: nth_list_update dest: isOpen_selectOption)
next
  case (Call_destroy i)
  then show ?thesis by (auto simp: nth_list_update destroy_def)
qed

lemma classes_ok_step: "classes_ok p \<Longrightarrow> classes_ok (step a p)"
  unfolding classes_ok_def list_all_length
proof (intro allI impI)
  fix j
  assume ok: "\<forall>n<length p. class_dropdown (p ! n) \<and> (class_is_open (p ! n) \<or> \<not> isOpen (p ! n))"
    and j: "j < length (step a p)"
  then have j': "j < length p" by simp
  note ls = local_step_step [OF j', of a]
  from ok j' have "class_dropdown (p ! j)" "class_is_open (p ! j) \<or> \<not> isOpen (p ! j)" by auto
  with local_step_class_dropdown [OF ls] local_step_class_is_open [OF ls]
  show "class_dropdown (step a p ! j) \<and> (class_is_open (step a p ! j) \<or> \<not> isOpen (step a p ! j))"
    by auto
qed

lemma open_count_step:
  assumes "classes_ok p" and "open_count p \<le> 1"
  shows "open_count (step a p) \<le> 1"
proof -
  from step_opens_or_shrinks [of p a] show ?thesis
  proof
    assume "\<exists>i<length p. step a p = open_dd i p"
    then obtain i where i: "i < length p" and st: "step a p = open_dd i p" by blast
    show ?thesis
    proof (cases "isOpen (p ! i)")
      case True
      then show ?thesis using st assms(2) by (simp add: open_dd_def)
    next
      case False
      then show ?thesis using st open_count_open_dd [OF assms(1) i] by simp
    qed
  next
    assume "\<forall>j<length p. isOpen (step a p ! j) \<longrightarrow> isOpen (p ! j)"
    then have "open_count (step a p) \<le> open_count p"
      by (intro open_count_shrink) simp_all
    with assms(2) show ?thesis by simp
  qed
qed

lemma run_Nil [simp]: "run [] p = p"
  by (simp add: run_def)

lemma run_Cons [simp]: "run (a # acts) p = run acts (step a p)"
  by (simp add: run_def)

lemma run_snoc: "run (acts @ [a]) p = step a (run acts p)"
  by (simp add: run_def)

lemma classes_ok_run: "classes_ok p \<Longrightarrow> classes_ok (run acts p)"
  by (induction acts arbitrary: p) (simp_all add: classes_ok_step)

lemma open_count_run: "classes_ok p \<Longrightarrow> open_count p \<le> 1 \<Longrightarrow> open_count (run acts p) \<le> 1"
proof (induction acts arbitrary: p)
  case Nil
  then show ?case by simp
next
  case (Cons a acts)
  have "open_count (run acts (step a p)) \<le> 1"
    by (rule Cons.IH) (rule classes_ok_step [OF Cons.prems(1)], rule open_count_step [OF Cons.prems])
  then show ?case by simp
qed

lemma classes_ok_initDropdowns:
  "list_all m_class_dropdown ms \<Longrightarrow> classes_ok (initDropdowns ms)"
  by (simp add: classes_ok_def initDropdowns_def new_Dropdown_def list_all_iff)

lemma open_count_initDropdowns: "open_count (initDropdowns ms) = 0"
  by (simp add: open_count_def initDropdowns_def new_Dropdown_def)

text \<open>
  C1, as the code has it. On a page whose containers all carry the class \<^verbatim>\<open>dropdown\<close>
  (the class that the selector \<^verbatim>\<open>.dropdown.is-open\<close> of \<^verbatim>\<open>open\<close> asks for), after
  any sequence of clicks, keys and calls at most one instance has \<^verbatim>\<open>isOpen = true\<close>.
  When a closed instance is opened, no instance is open once the loop that closes the
  others is over, and the instance's own changes are applied to that page, which leaves
  exactly one instance open.
\<close>

theorem C1_mutual_exclusion:
  assumes "list_all m_class_dropdown ms" and "p = run acts (initDropdowns ms)"
  shows "open_count p \<le> 1 \<and>
    (\<forall>i<length p. \<not> isOpen (p ! i) \<longrightarrow>
       open_count (open_broadcast i p) = 0 \<and>
       open_dd i p = (open_broadcast i p)[i := open_self (open_broadcast i p ! i)] \<and>
       open_count (open_dd i p) = 1)"
proof -
  have ok: "classes_ok p"
    using assms by (simp add: classes_ok_run classes_ok_initDropdowns)
  have "open_count p \<le> 1"
    unfolding assms(2)
    by (rule open_count_run) (simp_all add: classes_ok_initDropdowns assms(1) open_count_initDropdowns)
  moreover have "open_count (open_broadcast i p) = 0" if "i < length p" "\<not> isOpen (p ! i)" for i
    using open_broadcast_all_closed [OF ok that] by (simp add: open_count_0_iff)
  moreover have "open_dd i p = (open_broadcast i p)[i := open_self (open_broadcast i p ! i)]"
    if "\<not> isOpen (p ! i)" for i
    using that by (simp add: open_dd_def)
  moreover have "open_count (open_dd i p) = 1" if "i < length p" "\<not> isOpen (p ! i)" for i
    by (rule open_count_open_dd [OF ok that])
  ultimately show ?thesis by blast
qed

theorem C1_mutual_exclusion_witness:
  "list_all m_class_dropdown [example_markup, example_markup, example_markup] \<and>
   open_count (run [Call_open 0, ClickTrigger 1, KeyDown 1 ArrowDown]
     (initDropdowns [example_markup, example_markup, example_markup])) = 1 \<and>
   \<not> isOpen (run [Call_open 0, ClickTrigger 1, KeyDown 1 ArrowDown]
     (initDropdowns [example_markup, example_markup, example_markup]) ! 2) \<and>
   open_count (open_broadcast 2 (run [Call_open 0, ClickTrigger 1, KeyDown 1 ArrowDown]
     (initDropdowns [example_markup, example_markup, example_markup]))) = 0 \<and>
   open_count (open_dd 2 (run [Call_open 0, ClickTrigger 1, KeyDown 1 ArrowDown]
     (initDropdowns [example_markup, example_markup, example_markup]))) = 1"
proof -
  let ?ms = "[example_markup, example_markup, example_markup]"
  let ?p = "run [Call_open 0, ClickTrigger 1, KeyDown 1 ArrowDown] (initDropdowns ?ms)"
  have ms: "list_all m_class_dropdown ?ms"
    by (simp add: example_markup_def)
  have len: "2 < length ?p"
    by (simp add: initDropdowns_def)
  have closed: "\<not> isOpen (?p ! 2)"
    by code_simp
  have one: "open_count ?p = 1"
    by code_simp
  from C1_mutual_exclusion [OF ms refl, of "[Call_open 0, ClickTrigger 1, KeyDown 1 ArrowDown]"]
    len closed
  have "open_count (open_broadcast 2 ?p) = 0 \<and> open_count (open_dd 2 ?p) = 1"
    by blast
  with ms closed one show ?thesis by blast
qed

text \<open>
  C1 as stated fails: two containers that carry \<^verbatim>\<open>data-dropdown\<close> but not the class
  \<^verbatim>\<open>dropdown\<close> are both open after \<^verbatim>\<open>open\<close> has been called on each.
\<close>

theorem C1_counterexample:
  "open_count (run [Call_open 0, Call_open 1] (initDropdowns [unclassed_markup, unclassed_markup])) = 2"
  by code_simp

subsection \<open>\<^verbatim>\<open>selectOption\<close>\<close>


lemma options_at_in_range:
  "0 \<le> n \<Longrightarrow> n < int (length (options d)) \<Longrightarrow> options_at d n = OptionEl (nat n)"
  by (simp add: options_at_def)


lemma remove_previous_fields:
  "dispatched (remove_previous d) = dispatched d"
  "isOpen (remove_previous d) = isOpen d"
  "focusedIndex (remove_previous d) = focusedIndex d"
  "selectedValue (remove_previous d) = selectedValue d"
  "value_innerHTML (remove_previous d) = value_innerHTML d"
  "length (options (remove_previous d)) = length (options d)"
  by (simp_all add: remove_previous_def split: elem_ref.splits)

lemma remove_previous_data:
  assumes "k < length (options d)"
  shows "data_value (options (remove_previous d) ! k) = data_value (options d ! k)"
    and "innerHTML (options (remove_previous d) ! k) = innerHTML (options d ! k)"
proof -
  have "data_value (options (remove_previous d) ! k) = data_value (options d ! k) \<and>
      innerHTML (options (remove_previous d) ! k) = innerHTML (options d ! k)"
  proof (cases "selectedOption d")
    case (OptionEl x)
    with assms show ?thesis
      by (cases "x = k") (simp_all add: remove_previous_def mark_unselected_def)
  qed (simp_all add: remove_previous_def)
  then show "data_value (options (remove_previous d) ! k) = data_value (options d ! k)"
    and "innerHTML (options (remove_previous d) ! k) = innerHTML (options d ! k)"
    by simp_all
qed

lemma selectOption_update_OptionEl:
  assumes "k < length (options d)"
  shows "fst (selectOption_update (OptionEl k) d) = Returned"
    and "isOpen (snd (selectOption_update (OptionEl k) d)) = False"
    and "selectedOption (snd (selectOption_update (OptionEl k) d)) = OptionEl k"
    and "length (options (snd (selectOption_update (OptionEl k) d))) = length (options d)"
    and "selectedValue (snd (selectOption_update (OptionEl k) d)) = Some (data_value (options d ! k))"
    and "value_innerHTML (snd (selectOption_update (OptionEl k) d)) = innerHTML (options d ! k)"
    and "dispatched (snd (selectOption_update (OptionEl k) d)) = dispatched d"
    and "focusedIndex (snd (selectOption_update (OptionEl k) d)) = (if isOpen d then - 1 else focusedIndex d)"
  using assms remove_previous_data [OF assms]
  by (simp_all add: selectOption_update_def Let_def close_def remove_previous_fields
      mark_selected_def)

lemma selectOption_OptionEl:
  "selectOption this (OptionEl k) n d =
     (Returned,
      dispatchEvent
        \<lparr>ev_value = selectedValue (snd (selectOption_update (OptionEl k) d)),
         ev_option = OptionEl k, ev_dropdown = this\<rparr>
        (snd (selectOption_update (OptionEl k) d)))"
  by (simp add: selectOption_def selectOption_update_def Let_def)




text \<open>
  C4. For a valid index \<open>n\<close>, \<^verbatim>\<open>selectOption(this.options[n], n)\<close> returns, leaves the
  instance closed with \<open>selectedIndex = n\<close>, and dispatches exactly one
  \<^verbatim>\<open>dropdown:select\<close> event on the container. Its detail holds the value of option \<open>n\<close>,
  the option element at index \<open>n\<close> and the container element of the instance.
\<close>

theorem C4_selectOption_valid:
  assumes "0 \<le> n" and "n < int (length (options d))"
  shows "fst (selectOption this (options_at d n) n d) = Returned \<and>
    isOpen (snd (selectOption this (options_at d n) n d)) = False \<and>
    selectedIndex (snd (selectOption this (options_at d n) n d)) = n \<and>
    dispatched (snd (selectOption this (options_at d n) n d)) =
      dispatched d @
        [\<lparr>ev_value = Some (data_value (options d ! nat n)), ev_option = OptionEl (nat n),
          ev_dropdown = this\<rparr>]"
proof -
  from assms have k: "nat n < length (options d)" by simp
  show ?thesis
    using assms selectOption_update_OptionEl [OF k]
    by (simp add: options_at_in_range selectOption_OptionEl dispatchEvent_def
        selectedIndex_def indexOf_def)
qed

theorem C4_selectOption_valid_witness:
  "(0::int) \<le> 2 \<and> 2 < int (length (options selected_example)) \<and>
   fst (selectOption 5 (options_at selected_example 2) 2 selected_example) = Returned \<and>
   isOpen (snd (selectOption 5 (options_at selected_example 2) 2 selected_example)) = False \<and>
   selectedIndex (snd (selectOption 5 (options_at selected_example 2) 2 selected_example)) = 2 \<and>
   dispatched (snd (selectOption 5 (options_at selected_example 2) 2 selected_example)) =
     [\<lparr>ev_value = Some ''option1'', ev_option = OptionEl 0, ev_dropdown = 0\<rparr>,
      \<lparr>ev_value = Some ''option3'', ev_option = OptionEl 2, ev_dropdown = 5\<rparr>]"
proof -
  have len: "2 < int (length (options selected_example))"
    by code_simp
  have d: "dispatched selected_example =
      [\<lparr>ev_value = Some ''option1'', ev_option = OptionEl 0, ev_dropdown = 0\<rparr>]"
    by code_simp
  have v: "data_value (options selected_example ! nat 2) = ''option3''"
    by code_simp
  from C4_selectOption_valid [OF _ len, of 5] len d v show ?thesis by simp
qed

text \<open>
  C7. \<^verbatim>\<open>open\<close> on an instance that is open changes nothing on the page. On one that is
  closed it leaves the instance open with \<^verbatim>\<open>focusedIndex\<close> equal to the index of the
  selected option: \<open>k\<close> when option \<open>k\<close> is selected, and \<open>- 1\<close> ("none") when nothing
  is selected (\<^verbatim>\<open>selectedOption\<close> is \<^verbatim>\<open>null\<close> or \<^verbatim>\<open>undefined\<close>).
\<close>

theorem C7_open:
  assumes "i < length p"
  shows "(isOpen (p ! i) \<longrightarrow> open_dd i p = p) \<and>
    (\<not> isOpen (p ! i) \<longrightarrow>
       isOpen (open_dd i p ! i) \<and>
       focusedIndex (open_dd i p ! i) = selectedIndex (open_dd i p ! i) \<and>
       selectedIndex (open_dd i p ! i) = selectedIndex (p ! i) \<and>
       (selectedOption (p ! i) = Null \<longrightarrow> focusedIndex (open_dd i p ! i) = - 1) \<and>
       (selectedOption (p ! i) = Undefined \<longrightarrow> focusedIndex (open_dd i p ! i) = - 1) \<and>
       (\<forall>k. selectedOption (p ! i) = OptionEl k \<and> k < length (options (p ! i)) \<longrightarrow>
          focusedIndex (open_dd i p ! i) = int k \<and>
          selectedOption (open_dd i p ! i) = OptionEl k))"
proof -
  have same: "open_dd i p = p" if "isOpen (p ! i)"
    using that by (simp add: open_dd_def)
  have self: "open_dd i p ! i = open_self (p ! i)" if "\<not> isOpen (p ! i)"
    using that assms by (simp add: nth_open_dd)
  have idx: "isOpen (open_self d) \<and> focusedIndex (open_self d) = selectedIndex (open_self d) \<and>
      selectedIndex (open_self d) = selectedIndex d \<and>
      (selectedOption d = Null \<longrightarrow> focusedIndex (open_self d) = - 1) \<and>
      (selectedOption d = Undefined \<longrightarrow> focusedIndex (open_self d) = - 1)" for d
    by (cases "selectedOption d") (simp_all add: open_self_def selectedIndex_def indexOf_def)
  have at: "focusedIndex (open_self d) = int k \<and> selectedOption (open_self d) = OptionEl k"
    if "selectedOption d = OptionEl k" and "k < length (options d)" for d k
    using that by (simp add: open_self_def indexOf_def)
  show ?thesis
  proof (cases "isOpen (p ! i)")
    case True
    with same show ?thesis by simp
  next
    case False
    from idx [of "p ! i"] at [of "p ! i"] False show ?thesis
      unfolding self [OF False] by blast
  qed
qed

theorem C7_open_witness:
  "(0::nat) < length (run [ClickOption 0 2] (initDropdowns [example_markup])) \<and>
   \<not> isOpen (run [ClickOption 0 2] (initDropdowns [example_markup]) ! 0) \<and>
   selectedOption (run [ClickOption 0 2] (initDropdowns [example_markup]) ! 0) = OptionEl 2 \<and>
   2 < length (options (run [ClickOption 0 2] (initDropdowns [example_markup]) ! 0)) \<and>
   isOpen (open_dd 0 (run [ClickOption 0 2] (initDropdowns [example_markup])) ! 0) \<and>
   focusedIndex (open_dd 0 (run [ClickOption 0 2] (initDropdowns [example_markup])) ! 0) = 2 \<and>
   selectedIndex (open_dd 0 (run [ClickOption 0 2] (initDropdowns [example_markup])) ! 0) = 2 \<and>
   open_dd 0 (open_dd 0 (run [ClickOption 0 2] (initDropdowns [example_markup])))
     = open_dd 0 (run [ClickOption 0 2] (initDropdowns [example_markup]))"
proof -
  define q where "q = run [ClickOption 0 2] (initDropdowns [example_markup])"
  have len: "0 < length q"
    unfolding q_def by (simp only: length_run) (simp add: initDropdowns_def)
  have closed: "\<not> isOpen (q ! 0)" unfolding q_def by code_simp
  have sel: "selectedOption (q ! 0) = OptionEl 2" unfolding q_def by code_simp
  have k: "2 < length (options (q ! 0))" unfolding q_def by code_simp
  have si: "selectedIndex (q ! 0) = 2" unfolding q_def by code_simp
  from C7_open [OF len] closed sel k si
  have o: "isOpen (open_dd 0 q ! 0)" "focusedIndex (open_dd 0 q ! 0) = 2"
    "selectedIndex (open_dd 0 q ! 0) = 2"
    by simp_all
  have "0 < length (open_dd 0 q)" using len by simp
  from C7_open [OF this] o(1) have "open_dd 0 (open_dd 0 q) = open_dd 0 q" by simp
  with len closed sel k o show ?thesis unfolding q_def by (intro conjI)
qed

subsection \<open>After \<^verbatim>\<open>destroy\<close>\<close>

lemma destroyed_ignores_keys:
  "i < length p \<Longrightarrow> step (KeyDown i k) (p[i := destroy (p ! i)]) = p[i := destroy (p ! i)]"
  by (simp add: destroy_def)

lemma destroyed_ignores_other_clicks:
  "i < length p \<Longrightarrow> step (ClickOther t) (p[i := destroy (p ! i)]) ! i = destroy (p ! i)"
  by (simp add: nth_document_click destroy_def)

lemma destroyed_ignores_trigger_click:
  "i < length p \<Longrightarrow> step (ClickTrigger i) (p[i := destroy (p ! i)]) ! i = destroy (p ! i)"
  by (simp add: nth_document_click destroy_def)

text \<open>
  C3 says that after \<^verbatim>\<open>destroy\<close> no key or click on the instance changes its state
  or emits a notification. The code does not do that: \<^verbatim>\<open>destroy\<close> removes the listeners of the trigger, of the keys and of
  \<^verbatim>\<open>document\<close>, but not the click listeners of the options: after \<^verbatim>\<open>open\<close> and
  \<^verbatim>\<open>destroy\<close>, a click on the second option still selects it and dispatches a
  \<^verbatim>\<open>dropdown:select\<close> event.
\<close>

theorem C3_option_click_after_destroy:
  "selectedOption (run [Call_open 0, Call_destroy 0] (initDropdowns [example_markup]) ! 0) = Null \<and>
   dispatched (run [Call_open 0, Call_destroy 0] (initDropdowns [example_markup]) ! 0) = [] \<and>
   selectedOption
     (run [Call_open 0, Call_destroy 0, ClickOption 0 1] (initDropdowns [example_markup]) ! 0)
     = OptionEl 1 \<and>
   dispatched
     (run [Call_open 0, Call_destroy 0, ClickOption 0 1] (initDropdowns [example_markup]) ! 0)
     = [\<lparr>ev_value = Some ''option2'', ev_option = OptionEl 1, ev_dropdown = 0\<rparr>]"
  by code_simp

subsection \<open>Activation from the closed state\<close>

lemma closed_click_opens:
  "i < length p \<Longrightarrow> trigger_click_listener (p ! i) \<Longrightarrow> \<not> isOpen (p ! i) \<Longrightarrow>
     step (ClickTrigger i) p = open_dd i p"
  by (simp add: toggle_def)

lemma closed_enter_space_opens:
  "\<not> isOpen (p ! i) \<Longrightarrow>
     handleKeyboard i Enter p = (Returned, open_dd i p) \<and>
     handleKeyboard i Space p = (Returned, open_dd i p)"
  by (simp add: handleKeyboard_def enter_or_space_def)

lemma closed_arrows_ignored:
  "\<not> isOpen (p ! i) \<Longrightarrow>
     handleKeyboard i ArrowDown p = (Returned, p) \<and> handleKeyboard i ArrowUp p = (Returned, p)"
  by (simp add: handleKeyboard_def)

text \<open>
  C5 says that click, Enter, Space, ArrowDown and ArrowUp each open a closed instance.
  The code does not do that for the arrows: on a closed instance \<^verbatim>\<open>handleKeyboard\<close> returns at its first line for every key
  but Enter and Space: ArrowDown and ArrowUp leave the instance closed and the page as it
  is, although their \<^verbatim>\<open>case\<close> branches call \<^verbatim>\<open>open\<close> when the instance is closed.
\<close>

theorem C5_arrows_on_closed:
  "\<not> isOpen (initDropdowns [example_markup] ! 0) \<and>
   handleKeyboard 0 ArrowDown (initDropdowns [example_markup])
     = (Returned, initDropdowns [example_markup]) \<and>
   handleKeyboard 0 ArrowUp (initDropdowns [example_markup])
     = (Returned, initDropdowns [example_markup]) \<and>
   \<not> isOpen (step (KeyDown 0 ArrowDown) (initDropdowns [example_markup]) ! 0) \<and>
   \<not> isOpen (step (KeyDown 0 ArrowUp) (initDropdowns [example_markup]) ! 0) \<and>
   isOpen (step (KeyDown 0 Enter) (initDropdowns [example_markup]) ! 0)"
  by (simp add: handleKeyboard_def enter_or_space_def initDropdowns_def new_Dropdown_def
      open_dd_def open_broadcast_def open_self_def)

subsection \<open>The attributes\<close>

lemma expanded_in_sync_close: "expanded_in_sync d \<Longrightarrow> expanded_in_sync (close d)"
  by (simp add: expanded_in_sync_def close_def)

lemma expanded_in_sync_open_self: "expanded_in_sync (open_self d)"
  by (simp add: expanded_in_sync_def open_self_def)

lemma expanded_in_sync_selectOption:
  "expanded_in_sync d \<Longrightarrow> expanded_in_sync (snd (selectOption this r n d))"
  by (cases r)
    (simp_all add: expanded_in_sync_def selectOption_def selectOption_update_def
      remove_previous_def dispatchEvent_def close_def Let_def split: elem_ref.splits)

text \<open>
  C9 says that \<^verbatim>\<open>aria-expanded\<close> follows \<^verbatim>\<open>isOpen\<close> and \<^verbatim>\<open>aria-selected\<close> the
  selection on every transition of \<^verbatim>\<open>open\<close>, \<^verbatim>\<open>close\<close>, \<^verbatim>\<open>selectOption\<close> and
  \<^verbatim>\<open>destroy\<close>. The code does not do that in \<^verbatim>\<open>destroy\<close>, which sets \<^verbatim>\<open>isOpen = false\<close> and removes the class \<^verbatim>\<open>is-open\<close>, but
  leaves \<^verbatim>\<open>aria-expanded\<close> as it is: on an open instance the attribute stays
  \<^verbatim>\<open>true\<close>. (\<^verbatim>\<open>open\<close>, \<^verbatim>\<open>close\<close> and \<^verbatim>\<open>selectOption\<close> keep it in sync.)
\<close>

theorem C9_destroy_leaves_aria_expanded:
  "expanded_in_sync (run [Call_open 0] (initDropdowns [example_markup]) ! 0) \<and>
   isOpen (run [Call_open 0, Call_destroy 0] (initDropdowns [example_markup]) ! 0) = False \<and>
   aria_expanded (run [Call_open 0, Call_destroy 0] (initDropdowns [example_markup]) ! 0)
     = Some ''true'' \<and>
   \<not> expanded_in_sync (run [Call_open 0, Call_destroy 0] (initDropdowns [example_markup]) ! 0)"
  by code_simp

subsection \<open>Invariants of every run\<close>

lemma run_local_invariant:
  assumes "\<And>j d d'. local_step j d d' \<Longrightarrow> P d \<Longrightarrow> P d'"
  shows "(\<forall>j<length p. P (p ! j)) \<Longrightarrow> (\<forall>j<length p. P (run acts p ! j))"
proof (induction acts arbitrary: p)
  case Nil
  then show ?case by simp
next
  case (Cons a acts)
  have "\<forall>j<length (step a p). P (step a p ! j)"
  proof (intro allI impI)
    fix j
    assume "j < length (step a p)"
    then have j: "j < length p" by simp
    from assms [OF local_step_step [OF j]] Cons.prems j show "P (step a p ! j)" by blast
  qed
  from Cons.IH [OF this] show ?case by simp
qed

lemma local_step_focus_ok:
  assumes "local_step j d d'"
    and "options d = [] \<or> (- 1 \<le> focusedIndex d \<and> focusedIndex d < int (length (options d)))"
  shows "options d' = [] \<or> (- 1 \<le> focusedIndex d' \<and> focusedIndex d' < int (length (options d')))"
proof (cases "options d = []")
  case True
  with local_step_length_options [OF assms(1)] show ?thesis by simp
next
  case False
  with assms(2) local_step_focus_range [OF assms(1) False] show ?thesis by simp
qed

lemma reachable_focus_ok:
  assumes "p = run acts (initDropdowns ms)" and "i < length p"
  shows "options (p ! i) = [] \<or>
    (- 1 \<le> focusedIndex (p ! i) \<and> focusedIndex (p ! i) < int (length (options (p ! i))))"
proof -
  define P where
    "P = (\<lambda>d::dropdown. options d = [] \<or> (- 1 \<le> focusedIndex d \<and> focusedIndex d < int (length (options d))))"
  have pres: "\<And>j d d'. local_step j d d' \<Longrightarrow> P d \<Longrightarrow> P d'"
    unfolding P_def by (rule local_step_focus_ok)
  have init: "\<forall>j<length (initDropdowns ms). P (initDropdowns ms ! j)"
    by (simp add: P_def initDropdowns_def new_Dropdown_def)
  from run_local_invariant [where P = P and acts = acts, OF pres init] assms have "P (p ! i)" by simp
  then show ?thesis by (simp add: P_def)
qed

lemma reachable_closed_unfocused:
  assumes "p = run acts (initDropdowns ms)" and "i < length p"
  shows "isOpen (p ! i) \<or> focusedIndex (p ! i) = - 1 \<or> \<not> live (p ! i)"
proof -
  define P where "P = (\<lambda>d::dropdown. isOpen d \<or> focusedIndex d = - 1 \<or> \<not> live d)"
  have pres: "\<And>j d d'. local_step j d d' \<Longrightarrow> P d \<Longrightarrow> P d'"
    unfolding P_def by (rule local_step_closed_unfocused)
  have init: "\<forall>j<length (initDropdowns ms). P (initDropdowns ms ! j)"
    by (simp add: P_def initDropdowns_def new_Dropdown_def)
  from run_local_invariant [where P = P and acts = acts, OF pres init] assms have "P (p ! i)" by simp
  then show ?thesis by (simp add: P_def)
qed

subsection \<open>Keys that move the focus\<close>

lemma press_keys_Nil [simp]: "press_keys i [] p = p"
  by (simp add: press_keys_def)

lemma press_keys_Cons [simp]:
  "press_keys i (k # ks) p = press_keys i ks (snd (handleKeyboard i k p))"
  by (simp add: press_keys_def)

lemma press_keys_snoc:
  "press_keys i (ks @ [k]) p = snd (handleKeyboard i k (press_keys i ks p))"
  by (simp add: press_keys_def)

lemma updateFocusedOption_fields:
  "focusedIndex (updateFocusedOption d) = focusedIndex d"
  "isOpen (updateFocusedOption d) = isOpen d"
  "length (options (updateFocusedOption d)) = length (options d)"
  by (simp_all add: updateFocusedOption_def Let_def)

lemma handleKeyboard_open_focus_key:
  assumes "i < length p" and "isOpen (p ! i)"
  shows "snd (handleKeyboard i ArrowDown p) = p[i := focusNextOption (p ! i)]"
    and "snd (handleKeyboard i ArrowUp p) = p[i := focusPreviousOption (p ! i)]"
    and "snd (handleKeyboard i Home p) = p[i := focusFirstOption (p ! i)]"
    and "snd (handleKeyboard i End p) = p[i := focusLastOption (p ! i)]"
  using assms by (simp_all add: handleKeyboard_def)

lemma focus_methods_fields:
  "focusedIndex (focusNextOption d) = min (focusedIndex d + 1) (int (length (options d)) - 1)"
  "focusedIndex (focusPreviousOption d) = max (focusedIndex d - 1) 0"
  "focusedIndex (focusFirstOption d) = 0"
  "focusedIndex (focusLastOption d) = int (length (options d)) - 1"
  "isOpen (focusNextOption d) = isOpen d"
  "isOpen (focusPreviousOption d) = isOpen d"
  "isOpen (focusFirstOption d) = isOpen d"
  "isOpen (focusLastOption d) = isOpen d"
  "length (options (focusNextOption d)) = length (options d)"
  "length (options (focusPreviousOption d)) = length (options d)"
  "length (options (focusFirstOption d)) = length (options d)"
  "length (options (focusLastOption d)) = length (options d)"
  by (simp_all add: focusNextOption_def focusPreviousOption_def focusFirstOption_def
      focusLastOption_def updateFocusedOption_fields)

lemma focus_key_step:
  assumes "i < length p" and "isOpen (p ! i)" and "is_focus_key k"
    and "options (p ! i) \<noteq> []"
    and "- 1 \<le> focusedIndex (p ! i)" and "focusedIndex (p ! i) < int (length (options (p ! i)))"
  shows "isOpen (snd (handleKeyboard i k p) ! i) \<and>
    length (options (snd (handleKeyboard i k p) ! i)) = length (options (p ! i)) \<and>
    0 \<le> focusedIndex (snd (handleKeyboard i k p) ! i) \<and>
    focusedIndex (snd (handleKeyboard i k p) ! i) < int (length (options (p ! i)))"
proof -
  from assms(4) have "0 < int (length (options (p ! i)))" by simp
  with assms(3) show ?thesis
    unfolding is_focus_key_def
    using assms(1,2,5,6)
    by (auto simp: handleKeyboard_open_focus_key focus_methods_fields)
qed

lemma press_keys_focus_range:
  assumes "i < length p" and "isOpen (p ! i)" and "options (p ! i) \<noteq> []"
    and "- 1 \<le> focusedIndex (p ! i)" and "focusedIndex (p ! i) < int (length (options (p ! i)))"
  shows "list_all is_focus_key ks \<Longrightarrow>
    length (press_keys i ks p) = length p \<and>
    isOpen (press_keys i ks p ! i) \<and>
    length (options (press_keys i ks p ! i)) = length (options (p ! i)) \<and>
    - 1 \<le> focusedIndex (press_keys i ks p ! i) \<and>
    focusedIndex (press_keys i ks p ! i) < int (length (options (p ! i))) \<and>
    (ks = [] \<or> 0 \<le> focusedIndex (press_keys i ks p ! i))"
proof (induction ks rule: rev_induct)
  case Nil
  with assms show ?case by simp
next
  case (snoc k ks)
  let ?q = "press_keys i ks p"
  from snoc have ih: "length ?q = length p" "isOpen (?q ! i)"
      "length (options (?q ! i)) = length (options (p ! i))"
      "- 1 \<le> focusedIndex (?q ! i)" "focusedIndex (?q ! i) < int (length (options (p ! i)))"
    and k: "is_focus_key k"
    by simp_all
  from ih(3) assms(3) have ne: "options (?q ! i) \<noteq> []" by auto
  from ih(1) assms(1) have i: "i < length ?q" by simp
  from focus_key_step [OF i ih(2) k ne ih(4)] ih(3,5) ih(1)
  show ?case by (simp add: press_keys_snoc)
qed

lemma press_ArrowDown_at_last:
  "i < length p \<Longrightarrow> isOpen (p ! i) \<Longrightarrow>
     focusedIndex (p ! i) = int (length (options (p ! i))) - 1 \<Longrightarrow>
     focusedIndex (press_keys i (replicate m ArrowDown) p ! i) = int (length (options (p ! i))) - 1"
proof (induction m arbitrary: p)
  case 0
  then show ?case by simp
next
  case (Suc m)
  let ?q = "snd (handleKeyboard i ArrowDown p)"
  have q: "?q = p[i := focusNextOption (p ! i)]"
    by (rule handleKeyboard_open_focus_key [OF Suc.prems(1,2)])
  have "focusedIndex (press_keys i (replicate m ArrowDown) ?q ! i)
      = int (length (options (?q ! i))) - 1"
    by (rule Suc.IH) (simp_all add: q Suc.prems focus_methods_fields)
  then show ?case
    by (simp add: q Suc.prems focus_methods_fields)
qed

lemma press_ArrowUp_at_first:
  "i < length p \<Longrightarrow> isOpen (p ! i) \<Longrightarrow> focusedIndex (p ! i) = 0 \<Longrightarrow>
     focusedIndex (press_keys i (replicate m ArrowUp) p ! i) = 0"
proof (induction m arbitrary: p)
  case 0
  then show ?case by simp
next
  case (Suc m)
  let ?q = "snd (handleKeyboard i ArrowUp p)"
  have q: "?q = p[i := focusPreviousOption (p ! i)]"
    by (rule handleKeyboard_open_focus_key [OF Suc.prems(1,2)])
  have "focusedIndex (press_keys i (replicate m ArrowUp) ?q ! i) = 0"
    by (rule Suc.IH) (simp_all add: q Suc.prems focus_methods_fields)
  then show ?case by simp
qed

text \<open>
  C6, as the code has it. On an open instance ArrowDown, ArrowUp, Home and End set
  \<^verbatim>\<open>focusedIndex\<close> to \<open>min (focusedIndex + 1) lastIndex\<close>, \<open>max (focusedIndex - 1) 0\<close>,
  \<open>0\<close> and \<open>lastIndex\<close>; ArrowDown repeated at the last index stays there and ArrowUp
  repeated at index 0 stays there; and when the instance has at least one option, after
  any non-empty sequence of these keys \<^verbatim>\<open>focusedIndex\<close> lies in \<open>[0, length - 1]\<close>.
  The page is any page that clicks, keys and calls can produce.
\<close>

theorem C6_focus_keys:
  assumes "p = run acts (initDropdowns ms)" and "i < length p" and "isOpen (p ! i)"
  shows "focusedIndex (snd (handleKeyboard i ArrowDown p) ! i)
      = min (focusedIndex (p ! i) + 1) (int (length (options (p ! i))) - 1) \<and>
    focusedIndex (snd (handleKeyboard i ArrowUp p) ! i) = max (focusedIndex (p ! i) - 1) 0 \<and>
    focusedIndex (snd (handleKeyboard i Home p) ! i) = 0 \<and>
    focusedIndex (snd (handleKeyboard i End p) ! i) = int (length (options (p ! i))) - 1 \<and>
    (focusedIndex (p ! i) = int (length (options (p ! i))) - 1 \<longrightarrow>
       focusedIndex (press_keys i (replicate m ArrowDown) p ! i) = int (length (options (p ! i))) - 1) \<and>
    (focusedIndex (p ! i) = 0 \<longrightarrow>
       focusedIndex (press_keys i (replicate m ArrowUp) p ! i) = 0) \<and>
    (options (p ! i) \<noteq> [] \<and> ks \<noteq> [] \<and> list_all is_focus_key ks \<longrightarrow>
       isOpen (press_keys i ks p ! i) \<and>
       0 \<le> focusedIndex (press_keys i ks p ! i) \<and>
       focusedIndex (press_keys i ks p ! i) \<le> int (length (options (p ! i))) - 1)"
proof -
  note one = handleKeyboard_open_focus_key [OF assms(2,3)]
  have keys: "focusedIndex (snd (handleKeyboard i ArrowDown p) ! i)
      = min (focusedIndex (p ! i) + 1) (int (length (options (p ! i))) - 1)"
    "focusedIndex (snd (handleKeyboard i ArrowUp p) ! i) = max (focusedIndex (p ! i) - 1) 0"
    "focusedIndex (snd (handleKeyboard i Home p) ! i) = 0"
    "focusedIndex (snd (handleKeyboard i End p) ! i) = int (length (options (p ! i))) - 1"
    using assms(2) by (simp_all add: one focus_methods_fields)
  have range: "isOpen (press_keys i ks p ! i) \<and>
      0 \<le> focusedIndex (press_keys i ks p ! i) \<and>
      focusedIndex (press_keys i ks p ! i) \<le> int (length (options (p ! i))) - 1"
    if ne: "options (p ! i) \<noteq> []" and ks: "ks \<noteq> []" "list_all is_focus_key ks"
  proof -
    from reachable_focus_ok [OF assms(1,2)] ne
    have f: "- 1 \<le> focusedIndex (p ! i)" "focusedIndex (p ! i) < int (length (options (p ! i)))"
      by simp_all
    from press_keys_focus_range [OF assms(2,3) ne f ks(2)] ks(1) show ?thesis by simp
  qed
  from keys range press_ArrowDown_at_last [OF assms(2,3), of m]
    press_ArrowUp_at_first [OF assms(2,3), of m]
  show ?thesis by blast
qed

theorem C6_focus_keys_witness:
  "(0::nat) < length (run [ClickTrigger 0] (initDropdowns [example_markup])) \<and>
   isOpen (run [ClickTrigger 0] (initDropdowns [example_markup]) ! 0) \<and>
   focusedIndex (run [ClickTrigger 0] (initDropdowns [example_markup]) ! 0) = - 1 \<and>
   focusedIndex
     (snd (handleKeyboard 0 ArrowDown (run [ClickTrigger 0] (initDropdowns [example_markup]))) ! 0) = 0 \<and>
   focusedIndex
     (snd (handleKeyboard 0 ArrowUp (run [ClickTrigger 0] (initDropdowns [example_markup]))) ! 0) = 0 \<and>
   focusedIndex
     (snd (handleKeyboard 0 End (run [ClickTrigger 0] (initDropdowns [example_markup]))) ! 0) = 2 \<and>
   0 \<le> focusedIndex
     (press_keys 0 [ArrowDown, ArrowDown, ArrowDown, ArrowDown, ArrowUp]
       (run [ClickTrigger 0] (initDropdowns [example_markup])) ! 0) \<and>
   focusedIndex
     (press_keys 0 [ArrowDown, ArrowDown, ArrowDown, ArrowDown, ArrowUp]
       (run [ClickTrigger 0] (initDropdowns [example_markup])) ! 0) \<le> 2"
proof -
  let ?p = "run [ClickTrigger 0] (initDropdowns [example_markup])"
  let ?ks = "[ArrowDown, ArrowDown, ArrowDown, ArrowDown, ArrowUp]"
  have len: "0 < length ?p"
    by (simp only: length_run) (simp add: initDropdowns_def)
  have op: "isOpen (?p ! 0)" by code_simp
  have f: "focusedIndex (?p ! 0) = - 1" by code_simp
  have n: "int (length (options (?p ! 0))) = 3" by code_simp
  then have ne: "options (?p ! 0) \<noteq> []" by auto
  have ks: "?ks \<noteq> []" "list_all is_focus_key ?ks"
    by (simp_all add: is_focus_key_def)
  from C6_focus_keys [OF refl len op, of 0 ?ks] ne ks f n
  show ?thesis using len op by simp
qed

text \<open>
  C6 as stated fails on an instance without options: after Home, \<^verbatim>\<open>focusedIndex\<close> is
  \<open>0\<close>, which is not in \<open>[0, length - 1]\<close>.
\<close>

theorem C6_counterexample:
  "isOpen (run [Call_open 0] (initDropdowns [empty_markup]) ! 0) \<and>
   focusedIndex (press_keys 0 [Home] (run [Call_open 0] (initDropdowns [empty_markup])) ! 0) = 0 \<and>
   \<not> focusedIndex (press_keys 0 [Home] (run [Call_open 0] (initDropdowns [empty_markup])) ! 0)
       \<le> int (length (options
            (press_keys 0 [Home] (run [Call_open 0] (initDropdowns [empty_markup])) ! 0))) - 1"
  by code_simp

subsection \<open>What changes the selection\<close>

lemma close_fields:
  "selectedOption (close d) = selectedOption d"
  "length (options (close d)) = length (options d)"
  "focusedIndex (close d) = (if isOpen d then - 1 else focusedIndex d)"
  "isOpen (close d) = False"
  by (simp_all add: close_def)

lemma selectedIndex_cong:
  "selectedOption d' = selectedOption d \<Longrightarrow> length (options d') = length (options d) \<Longrightarrow>
     selectedIndex d' = selectedIndex d"
  by (simp add: selectedIndex_def indexOf_def split: elem_ref.splits)

lemma selectedOption_open_dd:
  "j < length p \<Longrightarrow> selectedOption (open_dd i p ! j) = selectedOption (p ! j)"
  by (simp add: nth_open_dd open_self_def close_fields)

lemma selectedOption_document_click:
  "j < length p \<Longrightarrow> selectedOption (document_click t p ! j) = selectedOption (p ! j)"
  by (simp add: nth_document_click handleClickOutside_def close_fields)

lemma selectedOption_focus:
  "selectedOption (focusNextOption d) = selectedOption d"
  "selectedOption (focusPreviousOption d) = selectedOption d"
  "selectedOption (focusFirstOption d) = selectedOption d"
  "selectedOption (focusLastOption d) = selectedOption d"
  by (simp_all add: focusNextOption_def focusPreviousOption_def focusFirstOption_def
      focusLastOption_def updateFocusedOption_def Let_def)

lemma selectedOption_handleKeyboard:
  assumes "j < length p"
    and "\<not> (i = j \<and> (k = Enter \<or> k = Space) \<and> isOpen (p ! i) \<and> 0 \<le> focusedIndex (p ! i))"
  shows "selectedOption (snd (handleKeyboard i k p) ! j) = selectedOption (p ! j)"
proof (cases "i = j")
  case True
  with assms show ?thesis
    by (cases k)
      (auto simp: handleKeyboard_def enter_or_space_def selectedOption_open_dd
        selectedOption_focus close_fields)
next
  case False
  with assms(1) show ?thesis
    by (cases k)
      (auto simp: handleKeyboard_def enter_or_space_def selectedOption_open_dd
        split: prod.splits)
qed

lemma step_keeps_selectedOption:
  assumes "j < length p" and "\<not> selects a j p"
  shows "selectedOption (step a p ! j) = selectedOption (p ! j)"
proof (cases a)
  case (KeyDown i k)
  with assms selectedOption_handleKeyboard [of j p i k] show ?thesis by auto
next
  case (ClickTrigger i)
  with assms show ?thesis
    by (cases "i = j")
      (auto simp: toggle_def selectedOption_open_dd selectedOption_document_click close_fields)
next
  case (Call_close i)
  with assms show ?thesis by (cases "i = j") (auto simp: close_fields)
next
  case (Call_destroy i)
  with assms show ?thesis by (cases "i = j") (auto simp: destroy_def)
qed (use assms in \<open>auto simp: selectedOption_open_dd selectedOption_document_click\<close>)

lemma close_keeps_selection:
  "selectedOption (close d) = selectedOption d \<and> selectedIndex (close d) = selectedIndex d"
proof -
  have "selectedIndex (close d) = selectedIndex d"
    by (rule selectedIndex_cong) (simp_all add: close_fields)
  then show ?thesis by (simp add: close_fields)
qed

lemma step_keeps_selection:
  assumes "j < length p" and "\<not> selects a j p"
  shows "selectedOption (step a p ! j) = selectedOption (p ! j) \<and>
    selectedIndex (step a p ! j) = selectedIndex (p ! j)"
proof -
  have so: "selectedOption (step a p ! j) = selectedOption (p ! j)"
    by (rule step_keeps_selectedOption [OF assms])
  have "length (options (step a p ! j)) = length (options (p ! j))"
    by (rule local_step_length_options [OF local_step_step [OF assms(1)]])
  from selectedIndex_cong [OF so this] so show ?thesis by simp
qed

lemma close_resets_focus:
  assumes "p = run acts (initDropdowns ms)" and "i < length p"
    and "live (p ! i) \<or> isOpen (p ! i)"
  shows "focusedIndex (close (p ! i)) = - 1"
proof -
  from reachable_closed_unfocused [OF assms(1,2)] assms(3)
  have "isOpen (p ! i) \<or> focusedIndex (p ! i) = - 1"
    by blast
  then show ?thesis
    by (cases "isOpen (p ! i)") (simp_all add: close_fields)
qed

text \<open>
  C8 says that \<^verbatim>\<open>close\<close> always resets \<^verbatim>\<open>focusedIndex\<close> to "none" and never changes
  the selection, and that the selection changes only through a select. The code keeps the
  selection (the two lemmas above), and \<^verbatim>\<open>close\<close> resets \<^verbatim>\<open>focusedIndex\<close> on every
  instance that is open or has its listeners. It does not after \<^verbatim>\<open>destroy\<close>, which
  sets \<^verbatim>\<open>isOpen = false\<close> but leaves \<^verbatim>\<open>focusedIndex\<close>, where \<^verbatim>\<open>close\<close> on the same
  open instance sets it to \<open>- 1\<close>: after \<^verbatim>\<open>open\<close>, ArrowDown and \<^verbatim>\<open>destroy\<close> the
  instance is closed with \<^verbatim>\<open>focusedIndex = 0\<close>, and \<^verbatim>\<open>close\<close> returns at its first
  line.
\<close>

theorem C8_close_after_destroy:
  "focusedIndex (run [Call_open 0, KeyDown 0 ArrowDown] (initDropdowns [example_markup]) ! 0) = 0 \<and>
   focusedIndex
     (close (run [Call_open 0, KeyDown 0 ArrowDown] (initDropdowns [example_markup]) ! 0)) = - 1 \<and>
   isOpen (run [Call_open 0, KeyDown 0 ArrowDown, Call_destroy 0] (initDropdowns [example_markup]) ! 0)
     = False \<and>
   focusedIndex
     (run [Call_open 0, KeyDown 0 ArrowDown, Call_destroy 0] (initDropdowns [example_markup]) ! 0)
     = 0 \<and>
   focusedIndex
     (close (run [Call_open 0, KeyDown 0 ArrowDown, Call_destroy 0] (initDropdowns [example_markup]) ! 0))
     = 0"
  by code_simp

lemma state_at_dispatch:
  assumes "p = run acts (initDropdowns ms)" and "i < length p"
    and "live (p ! i) \<or> isOpen (p ! i)"
    and "0 \<le> n" and "n < int (length (options (p ! i)))"
  shows "\<exists>d'. selectOption_update (options_at (p ! i) n) (p ! i) = (Returned, d') \<and>
    selectOption i (options_at (p ! i) n) n (p ! i) =
      (Returned,
       dispatchEvent
         \<lparr>ev_value = Some (data_value (options (p ! i) ! nat n)), ev_option = OptionEl (nat n),
          ev_dropdown = i\<rparr> d') \<and>
    isOpen d' = False \<and>
    focusedIndex d' = - 1 \<and>
    selectedOption d' = OptionEl (nat n) \<and>
    selectedValue d' = Some (data_value (options (p ! i) ! nat n)) \<and>
    value_innerHTML d' = innerHTML (options (p ! i) ! nat n)"
proof -
  from assms(4,5) have k: "nat n < length (options (p ! i))" by simp
  note upd = selectOption_update_OptionEl [OF k]
  have r: "options_at (p ! i) n = OptionEl (nat n)"
    by (rule options_at_in_range [OF assms(4,5)])
  from reachable_closed_unfocused [OF assms(1,2)] assms(3)
  have "isOpen (p ! i) \<or> focusedIndex (p ! i) = - 1"
    by blast
  then have f: "focusedIndex (snd (selectOption_update (OptionEl (nat n)) (p ! i))) = - 1"
    by (cases "isOpen (p ! i)") (simp_all add: upd)
  have e: "selectOption_update (OptionEl (nat n)) (p ! i)
      = (Returned, snd (selectOption_update (OptionEl (nat n)) (p ! i)))"
    using upd(1) by (simp add: prod_eq_iff)
  show ?thesis
    unfolding r
    by (rule exI [of _ "snd (selectOption_update (OptionEl (nat n)) (p ! i))"])
      (simp add: e [symmetric] f upd selectOption_OptionEl)
qed

text \<open>
  C10 says that an observer of the selection notification finds the instance closed, with
  \<^verbatim>\<open>focusedIndex\<close> "none" and with the value and the label of the chosen option.
  \<^verbatim>\<open>selectOption\<close> does call \<^verbatim>\<open>close\<close> before the dispatch, and on every instance that
  is open or has its listeners the state at the dispatch is that one (the lemma above). It
  is not after \<^verbatim>\<open>destroy\<close>, which leaves the click listeners of the options and leaves
  \<^verbatim>\<open>focusedIndex\<close>: after \<^verbatim>\<open>open\<close>, ArrowDown and \<^verbatim>\<open>destroy\<close>, a click on the
  second option dispatches the event while \<^verbatim>\<open>focusedIndex\<close> is \<open>0\<close>.
\<close>

theorem C10_dispatch_after_destroy:
  "fst (selectOption_update (OptionEl 1)
     (run [Call_open 0, KeyDown 0 ArrowDown, Call_destroy 0] (initDropdowns [example_markup]) ! 0))
     = Returned \<and>
   isOpen (snd (selectOption_update (OptionEl 1)
     (run [Call_open 0, KeyDown 0 ArrowDown, Call_destroy 0] (initDropdowns [example_markup]) ! 0)))
     = False \<and>
   focusedIndex (snd (selectOption_update (OptionEl 1)
     (run [Call_open 0, KeyDown 0 ArrowDown, Call_destroy 0] (initDropdowns [example_markup]) ! 0)))
     = 0 \<and>
   dispatched
     (run [Call_open 0, KeyDown 0 ArrowDown, Call_destroy 0, ClickOption 0 1]
       (initDropdowns [example_markup]) ! 0)
     = [\<lparr>ev_value = Some ''option2'', ev_option = OptionEl 1, ev_dropdown = 0\<rparr>] \<and>
   focusedIndex
     (run [Call_open 0, KeyDown 0 ArrowDown, Call_destroy 0, ClickOption 0 1]
       (initDropdowns [example_markup]) ! 0)
     = 0"
  by code_simp

subsection \<open>\<^verbatim>\<open>aria-selected\<close> follows the selection\<close>

lemma selected_in_sync_iff:
  "selected_in_sync d \<longleftrightarrow>
     (\<forall>k<length (options d).
        (aria_selected (options d ! k) = Some ''true'') = (selectedOption d = OptionEl k))"
  by (auto simp: selected_in_sync_def list_all_iff)

lemma selected_in_sync_options:
  assumes "selected_in_sync d" and "selectedOption d' = selectedOption d"
    and "length (options d') = length (options d)"
    and "\<forall>k<length (options d). aria_selected (options d' ! k) = aria_selected (options d ! k)"
  shows "selected_in_sync d'"
  using assms by (simp add: selected_in_sync_iff)

lemma selected_in_sync_close:
  assumes "selected_in_sync d"
  shows "selected_in_sync (close d)"
  by (rule selected_in_sync_options [OF assms]) (simp_all add: close_def unfocus_def)

lemma selected_in_sync_updateFocusedOption:
  assumes "selected_in_sync d" and "selectedOption d' = selectedOption d"
    and "options d' = options d"
  shows "selected_in_sync (updateFocusedOption d')"
  using assms(2,3)
  by (intro selected_in_sync_options [OF assms(1)])
    (auto simp: updateFocusedOption_def Let_def unfocus_def nth_list_update)

lemma selected_in_sync_selectOption:
  assumes "selected_in_sync d" and "valid_ref d r"
  shows "selected_in_sync (snd (selectOption this r n d))"
proof -
  have prev: "\<forall>k<length (options d). aria_selected (options (remove_previous d) ! k) \<noteq> Some ''true''"
    using assms(1)
    by (cases "selectedOption d")
      (auto simp: selected_in_sync_iff remove_previous_def mark_unselected_def nth_list_update)
  show ?thesis
  proof (cases r)
    case (OptionEl x)
    with assms(2) have x: "x < length (options d)" by (simp add: valid_ref_def)
    from prev x OptionEl show ?thesis
      by (auto simp: selected_in_sync_iff selectOption_def selectOption_update_def Let_def
          dispatchEvent_def close_def remove_previous_fields mark_selected_def unfocus_def
          nth_list_update)
  next
    case Null
    with prev show ?thesis
      by (simp add: selected_in_sync_iff selectOption_def selectOption_update_def Let_def
          remove_previous_fields)
  next
    case Undefined
    with prev show ?thesis
      by (simp add: selected_in_sync_iff selectOption_def selectOption_update_def Let_def
          remove_previous_fields)
  qed
qed

lemma local_step_selected_in_sync:
  "local_step j d d' \<Longrightarrow> selected_in_sync d \<Longrightarrow> selected_in_sync d'"
proof (induction rule: local_step.induct)
  case (ls_select d r j n)
  then show ?case by (simp add: selected_in_sync_selectOption)
next
  case (ls_open d j)
  then show ?case by (simp add: selected_in_sync_iff open_self_def)
next
  case (ls_destroy j d)
  then show ?case by (simp add: selected_in_sync_iff destroy_def)
qed (simp_all add: selected_in_sync_close selected_in_sync_updateFocusedOption
    focusNextOption_def focusPreviousOption_def focusFirstOption_def focusLastOption_def)

lemma reachable_selected_in_sync:
  assumes "p = run acts (initDropdowns ms)" and "i < length p"
  shows "selected_in_sync (p ! i)"
proof -
  have init: "\<forall>j<length (initDropdowns ms). selected_in_sync (initDropdowns ms ! j)"
    by (simp add: selected_in_sync_iff initDropdowns_def new_Dropdown_def new_option_def)
  from run_local_invariant [where P = selected_in_sync and acts = acts,
      OF local_step_selected_in_sync init] assms
  show ?thesis by simp
qed

end
